theory Spec2Isabelle
  imports Main
begin

section \<open>JavaScript values\<close>

text \<open>
  The gateway is JavaScript; its functions read claims, tool arguments and tool results
  as plain JSON-like values.  \<open>jsval\<close> is the value universe the modelled functions
  observe.  Numbers only occur as opaque claims and as millisecond readings, so they are
  integers here.  Objects are association lists in property order.  \<open>JFun\<close> stands for
  a built-in function value: the only one the modelled code can meet is
  \<open>String.prototype.sub\<close>, found when \<open>.sub\<close> is read from a string primitive.
\<close>

datatype jsval =
    JUndef
  | JNull
  | JBool bool
  | JNum int
  | JStr string
  | JArr "jsval list"
  | JObj "(string \<times> jsval) list"
  | JFun string

text \<open>ToBoolean: what \<open>||\<close>, \<open>&&\<close>, \<open>!\<close>, \<open>?:\<close> and \<open>filter(Boolean)\<close> test.\<close>

fun truthy :: "jsval \<Rightarrow> bool" where
  "truthy JUndef = False"
| "truthy JNull = False"
| "truthy (JBool b) = b"
| "truthy (JNum n) = (n \<noteq> 0)"
| "truthy (JStr s) = (s \<noteq> [])"
| "truthy (JArr xs) = True"
| "truthy (JObj kvs) = True"
| "truthy (JFun f) = True"

text \<open>\<open>a || b\<close>.\<close>

definition js_or :: "jsval \<Rightarrow> jsval \<Rightarrow> jsval" where
  "js_or a b = (if truthy a then a else b)"

text \<open>
  \<open>v.k\<close> for a receiver that is not null or undefined.  None of the keys the gateway
  reads is an own or inherited property of a number, boolean, array or function, and
  the only one a string inherits is \<open>sub\<close>.  Every use below has a receiver that the
  code has already tested truthy; the nullish cases are there for totality only.
\<close>

fun js_get :: "jsval \<Rightarrow> string \<Rightarrow> jsval" where
  "js_get (JObj kvs) k = (case map_of kvs k of None \<Rightarrow> JUndef | Some v \<Rightarrow> v)"
| "js_get (JStr s) k = (if k = ''sub'' then JFun ''String.prototype.sub'' else JUndef)"
| "js_get v k = JUndef"

text \<open>\<open>v?.k\<close>: undefined when the receiver is null or undefined.\<close>

fun opt_get :: "jsval \<Rightarrow> string \<Rightarrow> jsval" where
  "opt_get JUndef k = JUndef"
| "opt_get JNull k = JUndef"
| "opt_get v k = js_get v k"

text \<open>\<open>v?.[0]\<close>: first element of an array, first character of a string, key \<open>"0"\<close> of an object.\<close>

fun opt_idx0 :: "jsval \<Rightarrow> jsval" where
  "opt_idx0 (JArr []) = JUndef"
| "opt_idx0 (JArr (x # xs)) = x"
| "opt_idx0 (JStr []) = JUndef"
| "opt_idx0 (JStr (c # cs)) = JStr [c]"
| "opt_idx0 (JObj kvs) = js_get (JObj kvs) ''0''"
| "opt_idx0 v = JUndef"

text \<open>
  \<open>new Set(xs)\<close> keeps the first occurrence of every element, in insertion order, and
  compares with SameValueZero: primitives by value, objects, arrays and functions by
  reference.  The elements of a decoded token payload are fresh objects, so two
  non-primitive elements are never the same reference.
\<close>

fun is_primitive :: "jsval \<Rightarrow> bool" where
  "is_primitive (JArr xs) = False"
| "is_primitive (JObj kvs) = False"
| "is_primitive (JFun f) = False"
| "is_primitive v = True"

definition same_value_zero :: "jsval \<Rightarrow> jsval \<Rightarrow> bool" where
  "same_value_zero a b = (is_primitive a \<and> a = b)"

definition set_add :: "jsval list \<Rightarrow> jsval \<Rightarrow> jsval list" where
  "set_add acc x = (if list_ex (\<lambda>y. same_value_zero y x) acc then acc else acc @ [x])"

definition new_Set :: "jsval list \<Rightarrow> jsval list" where
  "new_Set xs = foldl set_add [] xs"

section \<open>Claims normalizer: \<open>getAuth\<close>\<close>

text \<open>
  \<open>s.split(' ')\<close>: the pieces between single spaces, empty pieces included
  (\<open>"".split(' ')\<close> is \<open>[""]\<close>).
\<close>

fun split_space :: "string \<Rightarrow> string list" where
  "split_space [] = [[]]"
| "split_space (c # cs) =
     (if c = CHR '' '' then [] # split_space cs
      else (case split_space cs of [] \<Rightarrow> [[c]] | w # ws \<Rightarrow> (c # w) # ws))"

text \<open>The configuration constants of \<open>env.js\<close> that the modelled functions read.\<close>

record env =
  AUTH_ENABLED :: bool
  API_AUTH0_AUDIENCE :: string
  API_DEFAULT_ORG :: string

text \<open>
  The request context: the \<open>Authorization\<close> header (absent is \<open>None\<close>) and the
  variables stored with \<open>context.set\<close>.
\<close>

record req_context =
  authorization :: "string option"
  vars :: "(string \<times> jsval) list"

definition context_get :: "req_context \<Rightarrow> string \<Rightarrow> jsval" where
  "context_get c k = (case map_of (vars c) k of None \<Rightarrow> JUndef | Some v \<Rightarrow> v)"

definition context_set :: "req_context \<Rightarrow> string \<Rightarrow> jsval \<Rightarrow> req_context" where
  "context_set c k v = c\<lparr>vars := (k, v) # vars c\<rparr>"

record principal =
  userId :: string
  orgId :: string
  scopes :: "jsval list"
  user :: jsval

text \<open>Line 63: \<open>token?.payload || token || {}\<close>.\<close>

definition token_user :: "jsval \<Rightarrow> jsval" where
  "token_user token = js_or (js_or (opt_get token ''payload'') token) (JObj [])"

text \<open>Lines 73 to 77: the scope claim as an array.\<close>

definition scopeArray :: "jsval \<Rightarrow> jsval list" where
  "scopeArray scopeValue =
     (case scopeValue of
        JArr xs \<Rightarrow> xs
      | JStr s \<Rightarrow> map JStr (filter (\<lambda>w. w \<noteq> []) (split_space s))
      | _ \<Rightarrow> [])"

text \<open>Line 80.\<close>

definition permissionsArray :: "jsval \<Rightarrow> jsval list" where
  "permissionsArray permissionsValue =
     (case permissionsValue of JArr xs \<Rightarrow> xs | _ \<Rightarrow> [])"

definition getAuth :: "env \<Rightarrow> req_context \<Rightarrow> principal" where
  "getAuth e c =
     (let token = context_get c ''auth0Token'';
          u = token_user token;
          uid = (case js_get u ''sub'' of
                   JStr s \<Rightarrow> if s \<noteq> [] then s else ''anonymous''
                 | _ \<Rightarrow> ''anonymous'');
          oid = (case js_get u ''org_id'' of
                   JStr s \<Rightarrow> if s \<noteq> [] then s else API_DEFAULT_ORG e
                 | _ \<Rightarrow> API_DEFAULT_ORG e);
          scopeValue = js_get u ''scope'';
          permissionsValue = js_get u ''permissions''
      in \<lparr>userId = uid, orgId = oid,
          scopes = new_Set (scopeArray scopeValue @ permissionsArray permissionsValue),
          user = u\<rparr>)"

text \<open>\<open>typeof v === 'string' && v\<close> holds: a string that is not empty.\<close>

definition nonempty_string :: "jsval \<Rightarrow> bool" where
  "nonempty_string v = (case v of JStr s \<Rightarrow> s \<noteq> [] | _ \<Rightarrow> False)"

section \<open>Ingress verifier: \<open>authMiddleware\<close>\<close>

text \<open>
  Strings are lists of code units below 256.  \<open>String.prototype.trim\<close> and the regular
  expression class \<open>\s\<close> remove the white space and line terminators of ECMAScript;
  those below 256 are TAB, LF, VT, FF, CR, SPACE and NBSP.
\<close>

definition js_whitespace :: "char \<Rightarrow> bool" where
  "js_whitespace c =
     (c \<in> set [CHR 0x09, CHR 0x0A, CHR 0x0B, CHR 0x0C, CHR 0x0D, CHR 0x20, CHR 0xA0])"

definition trim :: "string \<Rightarrow> string" where
  "trim s = rev (dropWhile js_whitespace (rev (dropWhile js_whitespace s)))"

text \<open>The rest of a string after a leading \<open>Bearer\<close> in any letter case.\<close>

fun bearer_rest :: "string \<Rightarrow> string option" where
  "bearer_rest (c1 # c2 # c3 # c4 # c5 # c6 # rest) =
     (if c1 \<in> set ''bB'' \<and> c2 \<in> set ''eE'' \<and> c3 \<in> set ''aA''
         \<and> c4 \<in> set ''rR'' \<and> c5 \<in> set ''eE'' \<and> c6 \<in> set ''rR''
      then Some rest else None)"
| "bearer_rest s = None"

text \<open>\<open>authHeader.replace(/^Bearer\s+/i, '')\<close>: the match takes all the white space that follows.\<close>

definition strip_bearer :: "string \<Rightarrow> string" where
  "strip_bearer h =
     (case bearer_rest h of
        Some (c # rest) \<Rightarrow> if js_whitespace c then dropWhile js_whitespace rest else h
      | _ \<Rightarrow> h)"

text \<open>
  What the middleware does besides answering: console lines, the call of the verifier
  with the token it was given, and the call of \<open>next()\<close>.
\<close>

datatype auth_event = Log string | Verify string | CallNext

text \<open>
  The value the middleware returns: what \<open>next()\<close> returns, or
  \<open>context.json(body, status, headers)\<close>.
\<close>

datatype reply = Next | Json jsval nat "(string \<times> string) list"

text \<open>A string between double quotes.\<close>

definition quoted :: "string \<Rightarrow> string" where
  "quoted s = [CHR 0x22] @ s @ [CHR 0x22]"

definition challenge :: "env \<Rightarrow> (string \<times> string) list" where
  "challenge e = [(''WWW-Authenticate'', ''Bearer resource='' @ quoted (API_AUTH0_AUDIENCE e))]"

text \<open>
  \<open>apiClient.verifyAccessToken\<close> belongs to the identity provider's library: it is a
  parameter, returning the decoded token or throwing (\<open>Inl\<close>).
\<close>

text \<open>Lines 27 and 28: the access token taken from the \<open>Authorization\<close> header.\<close>

definition request_token :: "req_context \<Rightarrow> string" where
  "request_token c =
     (let authHeader = (case authorization c of None \<Rightarrow> [] | Some h \<Rightarrow> h)
      in trim (strip_bearer authHeader))"

definition authMiddleware ::
  "env \<Rightarrow> (string \<Rightarrow> string + jsval) \<Rightarrow> req_context
     \<Rightarrow> reply \<times> req_context \<times> auth_event list" where
  "authMiddleware e verifyAccessToken c =
     (if \<not> AUTH_ENABLED e then (Next, c, [CallNext])
      else
        let accessToken = request_token c
        in if accessToken = [] then
             (Json (JObj [(''error'', JStr ''Unauthorized: Missing access token'')]) 401
                (challenge e),
              c, [Log ''No access token provided''])
           else
             (case verifyAccessToken accessToken of
                Inr decodedAndVerifiedToken \<Rightarrow>
                  (Next, context_set c ''auth0Token'' decodedAndVerifiedToken,
                   [Log ''Verifying access token...'', Verify accessToken,
                    Log ''Token verified successfully:'', CallNext])
              | Inl error \<Rightarrow>
                  (Json (JObj [(''error'', JStr ''Unauthorized: Invalid access token'')]) 401
                     (challenge e),
                   c, [Log ''Verifying access token...'', Verify accessToken,
                       Log ''Error verifying access token:''])))"

section \<open>Tool dispatcher: \<open>createSession\<close> and \<open>tv_create_task\<close>\<close>

definition createSession :: "jsval \<Rightarrow> jsval" where
  "createSession extra =
     (let auth = opt_get extra ''authInfo''
      in if truthy auth then
           JObj [(''token'', js_get auth ''token''),
                 (''extra'', js_or (js_get auth ''extra'') (JObj [])),
                 (''scopes'', js_or (js_get auth ''scopes'') (JArr [])),
                 (''clientId'', js_get auth ''clientId'')]
         else JNull)"

text \<open>
  Writing a property of an object literal that was filled by a spread: an existing key
  keeps its place, a new key goes last.  \<open>delete\<close> removes the key.
\<close>

definition obj_set :: "(string \<times> jsval) list \<Rightarrow> string \<Rightarrow> jsval \<Rightarrow> (string \<times> jsval) list" where
  "obj_set kvs k v =
     (if k \<in> fst ` set kvs then map (\<lambda>(k', v'). if k' = k then (k', v) else (k', v')) kvs
      else kvs @ [(k, v)])"

definition obj_delete :: "(string \<times> jsval) list \<Rightarrow> string \<Rightarrow> (string \<times> jsval) list" where
  "obj_delete kvs k = filter (\<lambda>(k', v'). k' \<noteq> k) kvs"

text \<open>The forwarding call \<open>callApi(path, {method, body, session})\<close>.\<close>

record api_call =
  call_path :: string
  call_method :: string
  call_body :: jsval
  call_session :: jsval

text \<open>Lines 182 to 187: the task payload built from the validated arguments.\<close>

definition taskData :: "(string \<times> jsval) list \<Rightarrow> jsval \<Rightarrow> (string \<times> jsval) list" where
  "taskData args session =
     (let t = js_or (js_get (JObj args) ''title'') (js_get (JObj args) ''name'');
          ow = js_or (js_or (js_get (JObj args) ''ownerId'')
                            (opt_get (opt_get session ''extra'') ''sub''))
                     (JStr ''default-user'')
      in obj_delete (obj_set (obj_set args ''title'' t) ''ownerId'' ow) ''name'')"

text \<open>
  \<open>formatResult\<close>, with \<open>JSON.stringify(data, null, 2)\<close> as a parameter.
\<close>

definition formatResult :: "(jsval \<Rightarrow> string) \<Rightarrow> jsval \<Rightarrow> jsval" where
  "formatResult stringify d =
     JObj [(''content'', JArr [JObj [(''type'', JStr ''text''), (''text'', JStr (stringify d))]])]"

text \<open>
  The handler of \<open>tv_create_task\<close>.  \<open>callApi\<close> lives in \<open>client.js\<close> and is a
  parameter: it returns the response of the resource API or throws.  The handler returns
  the call it forwarded together with its own result.
\<close>

definition tv_create_task ::
  "(api_call \<Rightarrow> string + jsval) \<Rightarrow> (jsval \<Rightarrow> string) \<Rightarrow> (string \<times> jsval) list \<Rightarrow> jsval
     \<Rightarrow> api_call \<times> (string + jsval)" where
  "tv_create_task callApi stringify args extra =
     (let session = createSession extra;
          req = \<lparr>call_path = ''/tasks'', call_method = ''POST'',
                 call_body = JObj (taskData args session), call_session = session\<rparr>
      in (req, case callApi req of
                 Inl err \<Rightarrow> Inl err
               | Inr result \<Rightarrow> Inr (formatResult stringify result)))"

text \<open>
  The principal the other tool handlers log: \<open>session?.extra?.sub || 'anonymous'\<close>.
\<close>

definition tool_principal :: "jsval \<Rightarrow> jsval" where
  "tool_principal session =
     js_or (opt_get (opt_get session ''extra'') ''sub'') (JStr ''anonymous'')"

section \<open>Downstream bridge: \<open>createMCPClient\<close>\<close>

text \<open>
  The variables the closures of \<open>createMCPClient\<close> share.  \<open>client\<close> and \<open>transport\<close>
  say whether the variable holds an object.
\<close>

record bridge =
  accessToken :: jsval
  client :: bool
  transport :: bool
  exchangedScopes :: jsval
  tokenExchangeTime :: "int option"

datatype bridge_event =
    LogCall string
  | LogCompleted string int
  | LogFailed string string int
  | LogError string string
  | ClientClose
  | TransportClose

text \<open>
  What the remote side does during construction: each step succeeds or throws a message.
\<close>

record connect_io =
  transport_ctor :: "string option"
  client_ctor :: "string option"
  connect_result :: "string option"
  listTools_result :: "string + (string \<times> jsval) list"

text \<open>
  The \<open>catch\<close> block of \<open>createMCPClient\<close> (lines 128 to 133): each close has its own
  \<open>.catch(() => {})\<close>, and the error is thrown again.
\<close>

definition connection_failed :: "bool \<Rightarrow> bool \<Rightarrow> string \<Rightarrow> bridge_event list" where
  "connection_failed cl tr err =
     [LogError ''MCP connection failed:'' err]
       @ (if cl then [ClientClose] else []) @ (if tr then [TransportClose] else [])"

definition createMCPClient ::
  "jsval \<Rightarrow> connect_io \<Rightarrow> (string + jsval \<times> bridge) \<times> bridge_event list" where
  "createMCPClient token io =
     (let tok = (if token = JUndef then JNull else token)
      in case transport_ctor io of
           Some err \<Rightarrow> (Inl err, connection_failed False False err)
         | None \<Rightarrow>
       (case client_ctor io of
           Some err \<Rightarrow> (Inl err, connection_failed False True err)
         | None \<Rightarrow>
       (case connect_result io of
           Some err \<Rightarrow> (Inl err, connection_failed True True err)
         | None \<Rightarrow>
       (case listTools_result io of
           Inl err \<Rightarrow> (Inl err, connection_failed True True err)
         | Inr toolsResult \<Rightarrow>
             (Inr (js_or (js_get (JObj toolsResult) ''tools'') (JArr []),
                   \<lparr>accessToken = tok, client = True, transport = True,
                    exchangedScopes = JNull, tokenExchangeTime = None\<rparr>), [])))))"

text \<open>
  One call of \<open>callTool\<close> as the outside world answers it: the result of
  \<open>client.callTool\<close> (or the message of the error it throws) and the reading of
  \<open>Date.now()\<close> at each of the four places that read the clock.
\<close>

record call_io =
  call_result :: "string + jsval"
  t_start :: int
  t_exchange_start :: int
  t_exchange_end :: int
  t_end :: int

text \<open>Lines 84 to 93.  \<open>JSON.parse\<close> is a parameter; \<open>None\<close> is a thrown SyntaxError.\<close>

definition extract_scopes :: "(jsval \<Rightarrow> jsval option) \<Rightarrow> jsval \<Rightarrow> jsval \<Rightarrow> jsval" where
  "extract_scopes JSON_parse current result =
     (let text = opt_get (opt_idx0 (opt_get result ''content'')) ''text''
      in if \<not> truthy current \<and> truthy text then
           (case JSON_parse text of
              None \<Rightarrow> current
            | Some parsed \<Rightarrow>
                (let v = opt_get (opt_get parsed ''_metadata'') ''exchangedScopes''
                 in if truthy v then v else current))
         else current)"

text \<open>
  \<open>callTool\<close> is an async function: it runs up to \<open>await client.callTool(...)\<close>
  (line 76), is suspended there, and runs the rest when the remote call has settled.
  What it computed before the \<open>await\<close> stays in its own local variables; the variables
  of the bridge are shared with every other call, and other calls may run while this
  one is suspended.
\<close>

record call_frame =
  startTime :: int
  needsTokenExchange :: bool
  exchangeStartTime :: "int option"

text \<open>Lines 63 to 73: up to the \<open>await\<close>.\<close>

definition callTool_begin ::
  "bridge \<Rightarrow> string \<Rightarrow> jsval \<Rightarrow> call_io \<Rightarrow> call_frame \<times> bridge_event list" where
  "callTool_begin br name args io =
     (let nte = (truthy (accessToken br) \<and> tokenExchangeTime br = None)
      in (\<lparr>startTime = t_start io, needsTokenExchange = nte,
           exchangeStartTime = (if nte then Some (t_exchange_start io) else None)\<rparr>,
          [LogCall name]))"

text \<open>
  Lines 76 to 112: from the \<open>await\<close> on, on the bridge as it is when the remote call
  has settled.  \<open>needsTokenExchange && exchangeStartTime\<close> holds when the flag is set and
  the reading is a number other than 0.
\<close>

definition callTool_resume ::
  "(jsval \<Rightarrow> jsval option) \<Rightarrow> bridge \<Rightarrow> string \<Rightarrow> call_frame \<Rightarrow> call_io
     \<Rightarrow> (string + jsval) \<times> bridge \<times> bridge_event list" where
  "callTool_resume JSON_parse br name fr io =
     (case call_result io of
        Inr result \<Rightarrow>
          (let tet = (case exchangeStartTime fr of
                        Some t \<Rightarrow>
                          if needsTokenExchange fr \<and> t \<noteq> 0
                          then Some (t_exchange_end io - t)
                          else tokenExchangeTime br
                      | None \<Rightarrow> tokenExchangeTime br);
               es = extract_scopes JSON_parse (exchangedScopes br) result;
               duration = t_end io - startTime fr
           in (Inr result, br\<lparr>exchangedScopes := es, tokenExchangeTime := tet\<rparr>,
               [LogCompleted name duration]))
      | Inl error \<Rightarrow>
          (let duration = t_end io - startTime fr
           in (Inl error, br, [LogFailed name error duration])))"

text \<open>A call during which no other call of the same bridge runs.\<close>

definition callTool ::
  "(jsval \<Rightarrow> jsval option) \<Rightarrow> bridge \<Rightarrow> string \<Rightarrow> jsval \<Rightarrow> call_io
     \<Rightarrow> (string + jsval) \<times> bridge \<times> bridge_event list" where
  "callTool JSON_parse br name args io =
     (case callTool_begin br name args io of
        (fr, evs1) \<Rightarrow>
          (case callTool_resume JSON_parse br name fr io of
             (r, br', evs2) \<Rightarrow> (r, br', evs1 @ evs2)))"

definition getMetadata :: "bridge \<Rightarrow> jsval \<times> int option" where
  "getMetadata br = (exchangedScopes br, tokenExchangeTime br)"

text \<open>
  The statements of a \<open>try\<close> block, each with the message it throws if it throws: they
  run in order up to the first one that throws.
\<close>

fun try_block :: "(bridge_event \<times> string option) list \<Rightarrow> bridge_event list \<times> string option" where
  "try_block [] = ([], None)"
| "try_block ((ev, Some err) # rest) = ([ev], Some err)"
| "try_block ((ev, None) # rest) = (case try_block rest of (evs, r) \<Rightarrow> (ev # evs, r))"

text \<open>
  \<open>cleanup\<close> (lines 118 to 125), given what \<open>client.close()\<close> and \<open>transport.close()\<close>
  do when called.  The first component is the error \<open>cleanup\<close> itself throws.
\<close>

definition cleanup ::
  "bridge \<Rightarrow> string option \<Rightarrow> string option \<Rightarrow> string option \<times> bridge_event list" where
  "cleanup br client_close transport_close =
     (case try_block ((if client br then [(ClientClose, client_close)] else [])
                      @ (if transport br then [(TransportClose, transport_close)] else [])) of
        (evs, None) \<Rightarrow> (None, evs)
      | (evs, Some error) \<Rightarrow> (None, evs @ [LogError ''Cleanup error:'' error]))"

text \<open>A connection's calls one after the other, from the state \<open>br\<close>.\<close>

fun run_calls ::
  "(jsval \<Rightarrow> jsval option) \<Rightarrow> bridge \<Rightarrow> (string \<times> jsval \<times> call_io) list \<Rightarrow> bridge" where
  "run_calls JSON_parse br [] = br"
| "run_calls JSON_parse br ((name, args, io) # rest) =
     run_calls JSON_parse (fst (snd (callTool JSON_parse br name args io))) rest"

section \<open>Response text normalizer: \<open>extractResponseText\<close>\<close>

text \<open>\<open>unit.repeat(n)\<close>.\<close>

definition js_repeat :: "string \<Rightarrow> nat \<Rightarrow> string" where
  "js_repeat unit n = concat (replicate n unit)"

text \<open>\<open>Math.ceil(a / b)\<close> for a positive \<open>b\<close>.\<close>

definition ceil_div :: "nat \<Rightarrow> nat \<Rightarrow> nat" where
  "ceil_div a b = (a + b - 1) div b"

text \<open>
  The \<open>for\<close> loop of lines 120 to 126, entered with \<open>len\<close>: it returns the trimmed unit
  of the first length that tiles the text, or falls through (\<open>None\<close>).  The bound
  \<open>len <= text.length / 2\<close> is a comparison of reals.
\<close>

function tiling_loop :: "string \<Rightarrow> nat \<Rightarrow> string option" where
  "tiling_loop text len =
     (if 2 * len \<le> length text then
        (let unit = take len text;
             repeated = take (length text) (js_repeat unit (ceil_div (length text) len))
         in if repeated = text then Some (trim unit) else tiling_loop text (len + 1))
      else None)"
  by pat_completeness auto
termination
  by (relation "measure (\<lambda>(text, len). length text + 1 - 2 * len)") auto

declare tiling_loop.simps [simp del]

text \<open>
  \<open>extractResponseText\<close> on a response that is a string: every property read of lines
  108 to 112 gives undefined on a string primitive and \<open>String(response)\<close> is the
  response itself, so \<open>content\<close> is the response.
\<close>

definition extractResponseText :: "string \<Rightarrow> string" where
  "extractResponseText content =
     (let text = trim content
      in case tiling_loop text 1 of
           Some r \<Rightarrow> r
         | None \<Rightarrow>
             (let half = length text div 2
              in if length text > 50 \<and> trim (take half text) = trim (drop half text)
                 then trim (take half text)
                 else text))"

text \<open>
  The normalizer as the specification words it, for a trimmed text \<open>T\<close> of length \<open>L\<close>:
  the unit tiled to length \<open>L\<close>, the smallest tiling length from 1 to \<open>L/2\<close>, the halves
  check.
\<close>

definition tile :: "string \<Rightarrow> nat \<Rightarrow> string" where
  "tile unit L = map (\<lambda>i. unit ! (i mod length unit)) [0..<L]"

definition spec_normalize :: "string \<Rightarrow> string" where
  "spec_normalize T =
     (let L = length T
      in case find (\<lambda>len. tile (take len T) L = T) [1..<L div 2 + 1] of
           Some len \<Rightarrow> trim (take len T)
         | None \<Rightarrow>
             if L > 50 \<and> trim (take (L div 2) T) = trim (drop (L div 2) T)
             then trim (take (L div 2) T)
             else T)"

section \<open>Auxiliary notions for the statements\<close>

text \<open>
  The scope disclosure a tool result carries: the field
  \<open>_metadata.exchangedScopes\<close> of the JSON in the text of its first content block,
  undefined when there is no such text, when the text does not parse or when the field
  is missing.
\<close>

definition disclosed_scopes :: "(jsval \<Rightarrow> jsval option) \<Rightarrow> jsval \<Rightarrow> jsval" where
  "disclosed_scopes JSON_parse result =
     (let text = opt_get (opt_idx0 (opt_get result ''content'')) ''text''
      in if truthy text then
           (case JSON_parse text of
              None \<Rightarrow> JUndef
            | Some parsed \<Rightarrow> opt_get (opt_get parsed ''_metadata'') ''exchangedScopes'')
         else JUndef)"

text \<open>The state of a bridge after one more call.\<close>

definition after_call ::
  "(jsval \<Rightarrow> jsval option) \<Rightarrow> bridge \<Rightarrow> string \<Rightarrow> jsval \<Rightarrow> call_io \<Rightarrow> bridge" where
  "after_call JSON_parse br name args io = fst (snd (callTool JSON_parse br name args io))"

text \<open>
  Two calls of one bridge of which the second starts while the first is suspended at
  its \<open>await\<close>, settling in the order they started: the state after the first and the
  state after the second.
\<close>

definition overlapping_calls ::
  "(jsval \<Rightarrow> jsval option) \<Rightarrow> bridge \<Rightarrow> string \<times> jsval \<times> call_io \<Rightarrow> string \<times> jsval \<times> call_io
     \<Rightarrow> bridge \<times> bridge" where
  "overlapping_calls JSON_parse br c1 c2 =
     (case c1 of (name1, args1, io1) \<Rightarrow>
      case c2 of (name2, args2, io2) \<Rightarrow>
        (let fr1 = fst (callTool_begin br name1 args1 io1);
             fr2 = fst (callTool_begin br name2 args2 io2);
             br1 = fst (snd (callTool_resume JSON_parse br name1 fr1 io1));
             br2 = fst (snd (callTool_resume JSON_parse br1 name2 fr2 io2))
         in (br1, br2)))"

text \<open>The keys of an object.\<close>

definition obj_keys :: "(string \<times> jsval) list \<Rightarrow> string list" where
  "obj_keys kvs = map fst kvs"

text \<open>
  Inputs for the examples: a verifier that rejects every token; a \<open>JSON.parse\<close> that
  knows three texts; a tool result with one text block; a construction in which every
  step succeeds; a call that succeeds after 7 ms, one that succeeds after 12 ms and
  one that throws; a resource API that accepts a task with a title, an owner
  and no \<open>name\<close> and answers with a line naming both; a serializer for strings.
\<close>

definition reject_all :: "string \<Rightarrow> string + jsval" where
  "reject_all t = Inl ''invalid signature''"

definition scopes_json :: "string \<Rightarrow> string" where
  "scopes_json sc =
     ''{'' @ quoted ''_metadata'' @ '':{'' @ quoted ''exchangedScopes'' @ '':''
       @ quoted sc @ ''}}''"

definition example_parse :: "jsval \<Rightarrow> jsval option" where
  "example_parse t =
     (if t = JStr (scopes_json ''tasks:read'')
      then Some (JObj [(''_metadata'', JObj [(''exchangedScopes'', JStr ''tasks:read'')])])
      else if t = JStr (scopes_json ''tasks:write'')
      then Some (JObj [(''_metadata'', JObj [(''exchangedScopes'', JStr ''tasks:write'')])])
      else if t = JStr ''{}'' then Some (JObj [])
      else None)"

definition text_result :: "string \<Rightarrow> jsval" where
  "text_result t = JObj [(''content'', JArr [JObj [(''type'', JStr ''text''), (''text'', JStr t)]])]"

definition example_connect :: connect_io where
  "example_connect =
     \<lparr>transport_ctor = None, client_ctor = None, connect_result = None,
      listTools_result = Inr [(''tools'', JArr [])]\<rparr>"

definition call_ok :: "string \<Rightarrow> call_io" where
  "call_ok t =
     \<lparr>call_result = Inr (text_result t),
      t_start = 1000, t_exchange_start = 1000, t_exchange_end = 1007, t_end = 1008\<rparr>"

definition call_slow :: "string \<Rightarrow> call_io" where
  "call_slow t =
     \<lparr>call_result = Inr (text_result t),
      t_start = 1001, t_exchange_start = 1001, t_exchange_end = 1013, t_end = 1014\<rparr>"

definition call_failing :: call_io where
  "call_failing =
     \<lparr>call_result = Inl ''fetch failed'',
      t_start = 900, t_exchange_start = 900, t_exchange_end = 905, t_end = 905\<rparr>"

definition strict_api :: "api_call \<Rightarrow> string + jsval" where
  "strict_api req =
     (case (js_get (call_body req) ''title'', js_get (call_body req) ''ownerId'',
            js_get (call_body req) ''name'') of
        (JStr t, JStr ow, JUndef) \<Rightarrow> Inr (JStr (''created '' @ t @ '' for '' @ ow))
      | _ \<Rightarrow> Inl ''400 Bad Request'')"

definition example_stringify :: "jsval \<Rightarrow> string" where
  "example_stringify v = (case v of JStr t \<Rightarrow> quoted t | _ \<Rightarrow> ''null'')"

text \<open>A string that \<open>trim\<close> leaves alone: empty, or with no white space at either end.\<close>

definition trimmed :: "string \<Rightarrow> bool" where
  "trimmed s = (s = [] \<or> (\<not> js_whitespace (hd s) \<and> \<not> js_whitespace (last s)))"

text \<open>
  The normalizer finds a repetition in a trimmed text: the loop returns a unit, or the
  halves check of line 131 succeeds.
\<close>

definition has_repetition :: "string \<Rightarrow> bool" where
  "has_repetition T =
     (case tiling_loop T 1 of
        Some r \<Rightarrow> True
      | None \<Rightarrow> length T > 50 \<and> trim (take (length T div 2) T) = trim (drop (length T div 2) T))"

section \<open>Properties of the claims normalizer\<close>

lemma set_set_add: "set (set_add acc x) = insert x (set acc)"
  by (auto simp: set_add_def list_ex_iff same_value_zero_def)

lemma set_foldl_set_add: "set (foldl set_add acc xs) = set acc \<union> set xs"
  by (induction xs arbitrary: acc) (simp_all add: set_set_add)

lemma set_new_Set: "set (new_Set xs) = set xs"
  by (simp add: new_Set_def set_foldl_set_add)

lemma distinct_set_add:
  "distinct acc \<Longrightarrow> is_primitive x \<Longrightarrow> list_all is_primitive acc \<Longrightarrow> distinct (set_add acc x)"
  by (auto simp: set_add_def list_ex_iff list_all_iff same_value_zero_def)

lemma prim_set_add:
  "is_primitive x \<Longrightarrow> list_all is_primitive acc \<Longrightarrow> list_all is_primitive (set_add acc x)"
  by (auto simp: set_add_def)

lemma distinct_foldl_set_add:
  "distinct acc \<Longrightarrow> list_all is_primitive acc \<Longrightarrow> list_all is_primitive xs
     \<Longrightarrow> distinct (foldl set_add acc xs)"
  by (induction xs arbitrary: acc) (simp_all add: distinct_set_add prim_set_add)

lemma distinct_new_Set: "list_all is_primitive xs \<Longrightarrow> distinct (new_Set xs)"
  by (simp add: new_Set_def distinct_foldl_set_add)

lemma user_getAuth: "user (getAuth e c) = token_user (context_get c ''auth0Token'')"
  by (simp add: getAuth_def Let_def)

lemma scopes_getAuth:
  "scopes (getAuth e c) =
     new_Set (scopeArray (js_get (user (getAuth e c)) ''scope'')
              @ permissionsArray (js_get (user (getAuth e c)) ''permissions''))"
  by (simp add: getAuth_def Let_def)

lemma split_abc: "split_space ''a b a'' = [''a'', ''b'', ''a'']"
  by simp

text \<open>
  Claim C1.  Write \<open>u\<close> for the verified payload that \<open>getAuth\<close> resolves and returns in
  the \<open>user\<close> field.  Whenever its scope claim is a string \<open>s\<close> and its permissions claim
  is an array \<open>ps\<close>, the scope list of the principal has exactly the non-empty
  space-separated tokens of \<open>s\<close> together with the elements of \<open>ps\<close> as its elements,
  and it has no duplicates when the permissions are primitive values.  For scope
  \<open>"a b a"\<close> and permissions \<open>["b","c"]\<close> the scope set is \<open>{"a","b","c"}\<close>.
\<close>

theorem getAuth_scope_union:
  assumes "js_get (user (getAuth e c)) ''scope'' = JStr s"
    and "js_get (user (getAuth e c)) ''permissions'' = JArr ps"
  shows "set (scopes (getAuth e c))
           = JStr ` {w \<in> set (split_space s). w \<noteq> []} \<union> set ps
         \<and> (if list_all is_primitive ps then distinct (scopes (getAuth e c)) else True)
         \<and> (if s = ''a b a'' \<and> ps = [JStr ''b'', JStr ''c'']
            then set (scopes (getAuth e c)) = {JStr ''a'', JStr ''b'', JStr ''c''}
            else True)"
proof -
  let ?sc = "scopes (getAuth e c)"
  have sc: "?sc = new_Set (map JStr (filter (\<lambda>w. w \<noteq> []) (split_space s)) @ ps)"
    using assms by (simp add: scopes_getAuth scopeArray_def permissionsArray_def)
  have union: "set ?sc = JStr ` {w \<in> set (split_space s). w \<noteq> []} \<union> set ps"
    by (auto simp: sc set_new_Set)
  have dist: "list_all is_primitive ps \<Longrightarrow> distinct ?sc"
    unfolding sc by (rule distinct_new_Set) (auto simp: list_all_iff)
  have inst: "s = ''a b a'' \<Longrightarrow> ps = [JStr ''b'', JStr ''c'']
                \<Longrightarrow> set ?sc = {JStr ''a'', JStr ''b'', JStr ''c''}"
    unfolding union by (auto simp only: split_abc) auto
  show ?thesis using union dist inst by simp
qed

theorem getAuth_scope_union_witness:
  "set (scopes (getAuth \<lparr>AUTH_ENABLED = True, API_AUTH0_AUDIENCE = ''aud'', API_DEFAULT_ORG = ''org''\<rparr>
     \<lparr>authorization = None,
      vars = [(''auth0Token'', JObj [(''sub'', JStr ''u1''), (''scope'', JStr ''a b a''),
             (''permissions'', JArr [JStr ''b'', JStr ''c''])])]\<rparr>))
   = {JStr ''a'', JStr ''b'', JStr ''c''}"
proof -
  let ?e = "\<lparr>AUTH_ENABLED = True, API_AUTH0_AUDIENCE = ''aud'', API_DEFAULT_ORG = ''org''\<rparr>"
  let ?c = "\<lparr>authorization = None,
      vars = [(''auth0Token'', JObj [(''sub'', JStr ''u1''), (''scope'', JStr ''a b a''),
             (''permissions'', JArr [JStr ''b'', JStr ''c''])])]\<rparr>"
  have u: "user (getAuth ?e ?c) = JObj [(''sub'', JStr ''u1''), (''scope'', JStr ''a b a''),
             (''permissions'', JArr [JStr ''b'', JStr ''c''])]"
    by (simp add: user_getAuth context_get_def token_user_def js_or_def)
  have s: "js_get (user (getAuth ?e ?c)) ''scope'' = JStr ''a b a''"
    unfolding u by simp
  have p: "js_get (user (getAuth ?e ?c)) ''permissions'' = JArr [JStr ''b'', JStr ''c'']"
    unfolding u by simp
  from getAuth_scope_union[OF s p, THEN conjunct2, THEN conjunct2] show ?thesis by simp
qed

lemma uid_getAuth:
  "userId (getAuth e c) =
     (if nonempty_string (js_get (user (getAuth e c)) ''sub'')
      then (case js_get (user (getAuth e c)) ''sub'' of JStr s \<Rightarrow> s | _ \<Rightarrow> [])
      else ''anonymous'')"
  by (simp add: getAuth_def Let_def nonempty_string_def split: jsval.splits)

text \<open>
  Claim C9.  A resolved payload whose subject claim is not a non-empty string (absent
  included) gives the user id \<open>anonymous\<close>.  With no verified token in the context
  the user id is \<open>anonymous\<close>, the organization is the configured default and the
  scope list is the empty list.
\<close>

theorem getAuth_anonymous_defaults:
  "(\<not> nonempty_string (js_get (user (getAuth e c)) ''sub'')
      \<longrightarrow> userId (getAuth e c) = ''anonymous'')
   \<and> (context_get c ''auth0Token'' = JUndef
      \<longrightarrow> userId (getAuth e c) = ''anonymous''
          \<and> orgId (getAuth e c) = API_DEFAULT_ORG e
          \<and> scopes (getAuth e c) = [])"
proof -
  have 1: "\<not> nonempty_string (js_get (user (getAuth e c)) ''sub'')
      \<Longrightarrow> userId (getAuth e c) = ''anonymous''"
    by (simp add: uid_getAuth)
  have 2: "context_get c ''auth0Token'' = JUndef \<Longrightarrow>
     userId (getAuth e c) = ''anonymous''
          \<and> orgId (getAuth e c) = API_DEFAULT_ORG e
          \<and> scopes (getAuth e c) = []"
    by (simp add: getAuth_def Let_def token_user_def js_or_def scopeArray_def
          permissionsArray_def new_Set_def)
  show ?thesis using 1 2 by blast
qed

theorem getAuth_anonymous_defaults_witness:
  "userId (getAuth \<lparr>AUTH_ENABLED = True, API_AUTH0_AUDIENCE = ''aud'', API_DEFAULT_ORG = ''org''\<rparr>
      \<lparr>authorization = None, vars = [(''auth0Token'', JObj [(''scope'', JStr ''a'')])]\<rparr>)
     = ''anonymous''
   \<and> userId (getAuth \<lparr>AUTH_ENABLED = False, API_AUTH0_AUDIENCE = ''aud'', API_DEFAULT_ORG = ''org''\<rparr>
      \<lparr>authorization = None, vars = []\<rparr>) = ''anonymous''
   \<and> orgId (getAuth \<lparr>AUTH_ENABLED = False, API_AUTH0_AUDIENCE = ''aud'', API_DEFAULT_ORG = ''org''\<rparr>
      \<lparr>authorization = None, vars = []\<rparr>) = ''org''
   \<and> scopes (getAuth \<lparr>AUTH_ENABLED = False, API_AUTH0_AUDIENCE = ''aud'', API_DEFAULT_ORG = ''org''\<rparr>
      \<lparr>authorization = None, vars = []\<rparr>) = []"
proof -
  let ?e = "\<lparr>AUTH_ENABLED = True, API_AUTH0_AUDIENCE = ''aud'', API_DEFAULT_ORG = ''org''\<rparr>"
  let ?c = "\<lparr>authorization = None, vars = [(''auth0Token'', JObj [(''scope'', JStr ''a'')])]\<rparr>"
  let ?e' = "\<lparr>AUTH_ENABLED = False, API_AUTH0_AUDIENCE = ''aud'', API_DEFAULT_ORG = ''org''\<rparr>"
  let ?c' = "\<lparr>authorization = None, vars = []\<rparr>"
  have a: "\<not> nonempty_string (js_get (user (getAuth ?e ?c)) ''sub'')"
    by (simp add: user_getAuth context_get_def token_user_def js_or_def nonempty_string_def)
  have b: "context_get ?c' ''auth0Token'' = JUndef"
    by (simp add: context_get_def)
  from getAuth_anonymous_defaults[of ?e ?c] a getAuth_anonymous_defaults[of ?e' ?c'] b
  show ?thesis by simp
qed

section \<open>Properties of the response text normalizer\<close>

subsection \<open>Trimming\<close>

lemma last_dropWhile_ne: "dropWhile P xs \<noteq> [] \<Longrightarrow> last (dropWhile P xs) = last xs"
  by (induction xs) (auto split: if_splits)

lemma trimmed_trim: "trimmed (trim s)"
proof -
  let ?a = "dropWhile js_whitespace s"
  let ?b = "dropWhile js_whitespace (rev ?a)"
  show ?thesis
  proof (cases "?b = []")
    case True then show ?thesis by (simp add: trimmed_def trim_def)
  next
    case False
    have a: "?a \<noteq> []"
      using False by (metis dropWhile.simps(1) rev.simps(1))
    have hb: "\<not> js_whitespace (hd ?b)" using False by (rule hd_dropWhile)
    have "last ?b = last (rev ?a)" using False by (rule last_dropWhile_ne)
    also have "\<dots> = hd ?a" using a by (simp add: last_rev)
    finally have lb: "\<not> js_whitespace (last ?b)" using hd_dropWhile[OF a] by simp
    show ?thesis using False hb lb by (simp add: trimmed_def trim_def hd_rev last_rev)
  qed
qed

lemma dropWhile_hd: "xs \<noteq> [] \<Longrightarrow> \<not> P (hd xs) \<Longrightarrow> dropWhile P xs = xs"
  by (cases xs) auto

lemma trim_trimmed: "trimmed s \<Longrightarrow> trim s = s"
proof (cases "s = []")
  case True then show ?thesis by (simp add: trim_def)
next
  case False
  assume "trimmed s"
  with False have h: "\<not> js_whitespace (hd s)" and l: "\<not> js_whitespace (last s)"
    by (auto simp: trimmed_def)
  have 1: "dropWhile js_whitespace s = s" using False h by (rule dropWhile_hd)
  have "hd (rev s) = last s" using False by (simp add: hd_rev)
  then have 2: "dropWhile js_whitespace (rev s) = rev s"
    using l False by (intro dropWhile_hd) simp_all
  show ?thesis by (simp add: trim_def 1 2)
qed

lemma trim_trim: "trim (trim s) = trim s"
  by (rule trim_trimmed) (rule trimmed_trim)

lemma length_trim: "length (trim s) \<le> length s"
proof -
  have "length (trim s) = length (dropWhile js_whitespace (rev (dropWhile js_whitespace s)))"
    by (simp add: trim_def)
  also have "\<dots> \<le> length (rev (dropWhile js_whitespace s))"
    by (rule length_dropWhile_le)
  also have "\<dots> \<le> length s" by (simp add: length_dropWhile_le)
  finally show ?thesis .
qed

subsection \<open>The loop finds the smallest tiling length\<close>

lemma nth_concat_replicate:
  "i < n * length u \<Longrightarrow> concat (replicate n u) ! i = u ! (i mod length u)"
proof (induction n arbitrary: i)
  case 0 then show ?case by simp
next
  case (Suc n)
  show ?case
  proof (cases "i < length u")
    case True then show ?thesis by (simp add: nth_append)
  next
    case False
    then have "i - length u < n * length u" using Suc.prems by simp
    from Suc.IH[OF this] False show ?thesis
      by (simp add: nth_append le_mod_geq)
  qed
qed

lemma length_concat_replicate: "length (concat (replicate n u)) = n * length u"
  by (induction n) simp_all

lemma ceil_div_ge: "0 < b \<Longrightarrow> a \<le> ceil_div a b * b"
proof -
  assume b: "0 < b"
  have m: "(a + b - 1) mod b < b" using b by simp
  have "(a + b - 1) div b * b + (a + b - 1) mod b = a + b - 1" by simp
  with m b show ?thesis unfolding ceil_div_def by linarith
qed

lemma repeat_slice_tile:
  assumes "u \<noteq> []" and "L \<le> n * length u"
  shows "take L (js_repeat u n) = tile u L"
proof (rule nth_equalityI)
  show "length (take L (js_repeat u n)) = length (tile u L)"
    using assms by (simp add: js_repeat_def tile_def length_concat_replicate)
next
  fix i assume "i < length (take L (js_repeat u n))"
  then have i: "i < L" by simp
  then have "i < n * length u" using assms by simp
  then show "take L (js_repeat u n) ! i = tile u L ! i"
    using i by (simp add: js_repeat_def tile_def nth_concat_replicate)
qed

lemma loop_repeated_tile:
  assumes "1 \<le> len" and "2 * len \<le> length T"
  shows "take (length T) (js_repeat (take len T) (ceil_div (length T) len))
           = tile (take len T) (length T)"
proof (rule repeat_slice_tile)
  show "take len T \<noteq> []" using assms by auto
  have "length (take len T) = len" using assms by simp
  then show "length T \<le> ceil_div (length T) len * length (take len T)"
    using ceil_div_ge[of len "length T"] assms by simp
qed

lemma tiling_loop_find:
  "1 \<le> k \<Longrightarrow> tiling_loop T k =
     map_option (\<lambda>len. trim (take len T))
       (find (\<lambda>len. tile (take len T) (length T) = T) [k..<Suc (length T div 2)])"
proof (induction T k rule: tiling_loop.induct)
  case (1 T k)
  show ?case
  proof (cases "2 * k \<le> length T")
    case True
    then have lt: "k < Suc (length T div 2)" by linarith
    have upt: "[k..<Suc (length T div 2)] = k # [Suc k..<Suc (length T div 2)]"
      using lt by (rule upt_conv_Cons)
    have rep: "take (length T) (js_repeat (take k T) (ceil_div (length T) k))
                 = tile (take k T) (length T)"
      using loop_repeated_tile[OF "1.prems" True] .
    show ?thesis
    proof (cases "tile (take k T) (length T) = T")
      case hit: True
      have "tiling_loop T k = Some (trim (take k T))"
        by (subst tiling_loop.simps) (simp add: True rep hit)
      then show ?thesis unfolding upt by (simp add: hit)
    next
      case miss: False
      have "tiling_loop T k = tiling_loop T (k + 1)"
        by (subst tiling_loop.simps) (simp add: True rep miss)
      also have "\<dots> = map_option (\<lambda>len. trim (take len T))
          (find (\<lambda>len. tile (take len T) (length T) = T) [Suc k..<Suc (length T div 2)])"
        using "1.IH"[OF True refl refl] miss rep by simp
      finally show ?thesis unfolding upt by (simp add: miss)
    qed
  next
    case False
    then have "[k..<Suc (length T div 2)] = []" by simp
    moreover have "tiling_loop T k = None"
      using False by (subst tiling_loop.simps) simp
    ultimately show ?thesis by (simp del: upt_Suc)
  qed
qed

lemma find_Some_mem: "find P xs = Some x \<Longrightarrow> x \<in> set xs"
  by (induction xs) (auto split: if_splits)

lemma tiling_loop_shorter:
  assumes "tiling_loop T 1 = Some r" shows "length r < length T"
proof -
  from assms obtain len where f: "find (\<lambda>len. tile (take len T) (length T) = T) [1..<Suc (length T div 2)] = Some len"
    and r: "r = trim (take len T)"
    by (auto simp: tiling_loop_find simp del: upt_Suc)
  from f have "len \<in> set [1..<Suc (length T div 2)]"
    by (rule find_Some_mem)
  then have len: "1 \<le> len" "2 * len \<le> length T"
    by (auto simp del: upt_Suc)
  have "length r \<le> length (take len T)" unfolding r by (rule length_trim)
  then show ?thesis using len by simp
qed

lemma extract_trimmed: "trim (extractResponseText T) = extractResponseText T"
proof -
  have "trimmed (extractResponseText T)"
    by (auto simp: extractResponseText_def Let_def tiling_loop_find trimmed_trim
             split: option.splits simp del: upt_Suc)
  then show ?thesis by (rule trim_trimmed)
qed

lemma extract_trim: "extractResponseText (trim T) = extractResponseText T"
  by (simp add: extractResponseText_def trim_trim)

text \<open>
  Claim C3.  On a string response the normalizer computes what the specification
  describes for the trimmed text \<open>T\<close> of length \<open>L\<close>: the trimmed unit of the smallest
  length from 1 to \<open>L/2\<close> whose tiling to length \<open>L\<close> is \<open>T\<close>; failing that, the trimmed
  first half when \<open>L > 50\<close> and the trimmed halves agree; failing that, \<open>T\<close>.  The three
  examples of the specification come out as stated.
\<close>

theorem extractResponseText_refines_spec:
  "extractResponseText content = spec_normalize (trim content)
   \<and> extractResponseText ''Hello worldHello world'' = ''Hello world''
   \<and> extractResponseText ''AAA'' = ''A''
   \<and> extractResponseText ''Hello'' = ''Hello''"
proof -
  have "extractResponseText content = spec_normalize (trim content)"
    by (simp add: extractResponseText_def spec_normalize_def Let_def tiling_loop_find
          split: option.splits del: upt_Suc)
  moreover have "extractResponseText ''Hello worldHello world'' = ''Hello world''"
    by code_simp
  moreover have "extractResponseText ''AAA'' = ''A''"
    by code_simp
  moreover have "extractResponseText ''Hello'' = ''Hello''"
    by code_simp
  ultimately show ?thesis by simp
qed

subsection \<open>Idempotence\<close>

text \<open>
  Claim C2 as stated fails: the unit \<open>ababa\<close> that tiles \<open>ababaababa\<close> is itself tiled
  by \<open>ab\<close> cut to length 5, so a second application shrinks the text again.
\<close>

theorem extractResponseText_not_idempotent:
  "extractResponseText (extractResponseText ''ababaababa'')
     \<noteq> extractResponseText ''ababaababa''"
  by code_simp

text \<open>
  Claim C2, amended.  Applying the normalizer to its own output gives the same text
  exactly when the normalizer finds no repetition in that output: no unit of at most
  half its length tiles it and the halves check fails on it.
\<close>

theorem extractResponseText_idempotent_iff:
  "extractResponseText (extractResponseText T) = extractResponseText T
     \<longleftrightarrow> \<not> has_repetition (extractResponseText T)"
proof -
  let ?t = "extractResponseText T"
  have t: "trim ?t = ?t" by (rule extract_trimmed)
  show ?thesis
  proof (cases "tiling_loop ?t 1")
    case (Some r)
    then have "length r < length ?t" by (rule tiling_loop_shorter)
    moreover have "extractResponseText ?t = r"
      by (simp add: extractResponseText_def[of ?t] t Some del: One_nat_def)
    ultimately show ?thesis by (auto simp: has_repetition_def Some simp del: One_nat_def)
  next
    case None
    let ?h = "length ?t div 2"
    show ?thesis
    proof (cases "length ?t > 50 \<and> trim (take ?h ?t) = trim (drop ?h ?t)")
      case True
      have "length (trim (take ?h ?t)) \<le> length (take ?h ?t)" by (rule length_trim)
      moreover have "length (take ?h ?t) < length ?t"
      proof -
        from True have "50 < length ?t" by (rule conjunct1)
        then have "?h < length ?t" by linarith
        then show ?thesis by simp
      qed
      ultimately have "length (trim (take ?h ?t)) < length ?t" by (rule le_less_trans)
      moreover have "extractResponseText ?t = trim (take ?h ?t)"
        using True by (simp add: extractResponseText_def[of ?t] t None Let_def del: One_nat_def)
      ultimately show ?thesis using True by (auto simp: has_repetition_def None simp del: One_nat_def)
    next
      case False
      have "extractResponseText ?t = ?t"
        using False by (auto simp add: extractResponseText_def[of ?t] t None Let_def simp del: One_nat_def)
      then show ?thesis using False by (auto simp: has_repetition_def None simp del: One_nat_def)
    qed
  qed
qed

theorem extractResponseText_idempotent_iff_witness:
  "extractResponseText (extractResponseText ''Hello worldHello world'')
     = extractResponseText ''Hello worldHello world''
   \<and> \<not> has_repetition (extractResponseText ''Hello worldHello world'')"
  using extractResponseText_idempotent_iff[of "''Hello worldHello world''"] by code_simp

section \<open>Properties of the ingress verifier\<close>

text \<open>
  Claim C4 as stated fails.  With authentication disabled the middleware hands a
  request without a token to \<open>next()\<close>; and with authentication enabled the body of the
  answer to a request without a token is not \<open>Unauthorized: missing token\<close>.
\<close>

theorem authMiddleware_claim_fails:
  "fst (authMiddleware \<lparr>AUTH_ENABLED = False, API_AUTH0_AUDIENCE = ''aud'', API_DEFAULT_ORG = ''org''\<rparr>
          reject_all \<lparr>authorization = None, vars = []\<rparr>) = Next
   \<and> fst (authMiddleware \<lparr>AUTH_ENABLED = True, API_AUTH0_AUDIENCE = ''aud'', API_DEFAULT_ORG = ''org''\<rparr>
          reject_all \<lparr>authorization = None, vars = []\<rparr>)
       \<noteq> Json (JObj [(''error'', JStr ''Unauthorized: missing token'')]) 401
            [(''WWW-Authenticate'', ''Bearer resource='' @ quoted ''aud'')]"
  by (simp add: authMiddleware_def request_token_def strip_bearer_def trim_def)

text \<open>
  Claim C4, amended.  With authentication enabled, a request whose header yields no
  token, and a request whose token the verifier rejects, get status 401, a JSON body
  with the single field \<open>error\<close> and the header
  \<open>WWW-Authenticate: Bearer resource="<audience>"\<close>; \<open>next()\<close> is not called and the
  context is left as it was.  Without a token the error text is
  \<open>Unauthorized: Missing access token\<close> and the verifier is not called; with a rejected
  token it is \<open>Unauthorized: Invalid access token\<close>.
\<close>

theorem authMiddleware_rejects:
  assumes "AUTH_ENABLED e"
    and "request_token c = [] \<or> verifyAccessToken (request_token c) = Inl err"
  shows "\<exists>evs. authMiddleware e verifyAccessToken c =
           (Json (JObj [(''error'',
                         JStr (if request_token c = [] then ''Unauthorized: Missing access token''
                               else ''Unauthorized: Invalid access token''))])
                 401
                 [(''WWW-Authenticate'', ''Bearer resource='' @ quoted (API_AUTH0_AUDIENCE e))],
            c, evs)
         \<and> CallNext \<notin> set evs
         \<and> (if request_token c = [] then \<forall>t. Verify t \<notin> set evs else True)"
  using assms by (auto simp: authMiddleware_def Let_def challenge_def)

theorem authMiddleware_rejects_witness:
  "(\<exists>evs. authMiddleware \<lparr>AUTH_ENABLED = True, API_AUTH0_AUDIENCE = ''aud'', API_DEFAULT_ORG = ''org''\<rparr>
       reject_all \<lparr>authorization = Some ''Basic abc'', vars = []\<rparr>
     = (Json (JObj [(''error'', JStr ''Unauthorized: Invalid access token'')]) 401
          [(''WWW-Authenticate'', ''Bearer resource='' @ quoted ''aud'')],
        \<lparr>authorization = Some ''Basic abc'', vars = []\<rparr>, evs) \<and> CallNext \<notin> set evs)
   \<and> (\<exists>evs. authMiddleware \<lparr>AUTH_ENABLED = True, API_AUTH0_AUDIENCE = ''aud'', API_DEFAULT_ORG = ''org''\<rparr>
       reject_all \<lparr>authorization = Some ''bearer  '', vars = []\<rparr>
     = (Json (JObj [(''error'', JStr ''Unauthorized: Missing access token'')]) 401
          [(''WWW-Authenticate'', ''Bearer resource='' @ quoted ''aud'')],
        \<lparr>authorization = Some ''bearer  '', vars = []\<rparr>, evs)
        \<and> CallNext \<notin> set evs \<and> (\<forall>t. Verify t \<notin> set evs))"
proof -
  let ?e = "\<lparr>AUTH_ENABLED = True, API_AUTH0_AUDIENCE = ''aud'', API_DEFAULT_ORG = ''org''\<rparr>"
  let ?c1 = "\<lparr>authorization = Some ''Basic abc'', vars = []\<rparr>"
  let ?c2 = "\<lparr>authorization = Some ''bearer  '', vars = []\<rparr>"
  have t1: "request_token ?c1 = ''Basic abc''"
    by (simp add: request_token_def strip_bearer_def trim_def js_whitespace_def)
  have t2: "request_token ?c2 = []"
    by (simp add: request_token_def strip_bearer_def trim_def js_whitespace_def)
  have h1: "request_token ?c1 = [] \<or> reject_all (request_token ?c1) = Inl ''invalid signature''"
    by (simp add: reject_all_def)
  have h2: "request_token ?c2 = [] \<or> reject_all (request_token ?c2) = Inl ''invalid signature''"
    by (simp add: t2)
  have e: "AUTH_ENABLED ?e" by simp
  from authMiddleware_rejects[where e = ?e and c = ?c1 and verifyAccessToken = reject_all
         and err = "''invalid signature''", OF e h1]
       authMiddleware_rejects[where e = ?e and c = ?c2 and verifyAccessToken = reject_all
         and err = "''invalid signature''", OF e h2]
  show ?thesis by (simp add: t1 t2)
qed

section \<open>Properties of the tool dispatcher\<close>

lemma map_of_obj_set:
  "map_of (obj_set kvs k v) k' = (if k' = k then Some v else map_of kvs k')"
proof (cases "k \<in> fst ` set kvs")
  case True
  have "map_of (map (\<lambda>(k', v'). if k' = k then (k', v) else (k', v')) kvs) k'
          = (if k' = k then (if k \<in> fst ` set kvs then Some v else None) else map_of kvs k')"
    by (induction kvs) (auto split: if_splits)
  then show ?thesis using True by (simp add: obj_set_def)
next
  case False
  then have "map_of kvs k = None" by (simp add: map_of_eq_None_iff)
  then show ?thesis using False by (auto simp: obj_set_def map_add_def split: option.splits)
qed

lemma map_of_obj_delete:
  "map_of (obj_delete kvs k) k' = (if k' = k then None else map_of kvs k')"
  unfolding obj_delete_def by (induction kvs) auto

lemma keys_obj_delete: "k \<notin> set (obj_keys (obj_delete kvs k))"
  by (auto simp: obj_keys_def obj_delete_def)

lemma tv_create_task_forwards:
  "tv_create_task callApi stringify args extra =
     (\<lparr>call_path = ''/tasks'', call_method = ''POST'',
       call_body = JObj (taskData args (createSession extra)),
       call_session = createSession extra\<rparr>,
      case callApi \<lparr>call_path = ''/tasks'', call_method = ''POST'',
                     call_body = JObj (taskData args (createSession extra)),
                     call_session = createSession extra\<rparr> of
        Inl err \<Rightarrow> Inl err
      | Inr result \<Rightarrow> Inr (formatResult stringify result))"
  by (simp add: tv_create_task_def Let_def)

text \<open>
  Claim C8.  When the arguments of \<open>tv_create_task\<close> have no \<open>title\<close> and have
  \<open>name\<close> equal to \<open>X\<close>, the handler calls \<open>callApi\<close> once, with \<open>POST /tasks\<close>, the
  caller's session and a body that has \<open>title\<close> equal to \<open>X\<close> and no \<open>name\<close> field, and
  what the handler returns or throws is what \<open>callApi\<close> answered to that call (a result
  wrapped by \<open>formatResult\<close>); this for every resource API, auth context and other
  arguments.
\<close>

theorem tv_create_task_alias:
  assumes "''title'' \<notin> set (obj_keys args)"
    and "map_of args ''name'' = Some (JStr X)"
  shows "\<exists>kvs. tv_create_task callApi stringify args extra =
           (\<lparr>call_path = ''/tasks'', call_method = ''POST'', call_body = JObj kvs,
             call_session = createSession extra\<rparr>,
            case callApi \<lparr>call_path = ''/tasks'', call_method = ''POST'', call_body = JObj kvs,
                           call_session = createSession extra\<rparr> of
              Inl err \<Rightarrow> Inl err
            | Inr result \<Rightarrow> Inr (formatResult stringify result))
           \<and> map_of kvs ''title'' = Some (JStr X)
           \<and> ''name'' \<notin> set (obj_keys kvs)"
proof -
  have none: "map_of args ''title'' = None"
    using assms(1) by (simp add: map_of_eq_None_iff obj_keys_def)
  have "map_of (taskData args (createSession extra)) ''title'' = Some (JStr X)"
    by (simp add: taskData_def Let_def map_of_obj_delete map_of_obj_set js_or_def none assms(2))
  moreover have "''name'' \<notin> set (obj_keys (taskData args (createSession extra)))"
    by (simp add: taskData_def Let_def keys_obj_delete)
  ultimately show ?thesis
    using tv_create_task_forwards[of callApi stringify args extra] by blast
qed

theorem tv_create_task_alias_witness:
  "tv_create_task strict_api example_stringify
       [(''projectId'', JStr ''p1''), (''name'', JStr ''X''), (''tags'', JArr [])] JUndef
     = (\<lparr>call_path = ''/tasks'', call_method = ''POST'',
         call_body = JObj [(''projectId'', JStr ''p1''), (''tags'', JArr []),
                           (''title'', JStr ''X''), (''ownerId'', JStr ''default-user'')],
         call_session = JNull\<rparr>,
        Inr (formatResult example_stringify (JStr ''created X for default-user'')))"
proof -
  let ?args = "[(''projectId'', JStr ''p1''), (''name'', JStr ''X''), (''tags'', JArr [])]"
  have a: "''title'' \<notin> set (obj_keys ?args)" by (simp add: obj_keys_def)
  have b: "map_of ?args ''name'' = Some (JStr ''X'')" by simp
  from tv_create_task_alias[OF a b, of strict_api example_stringify JUndef]
  obtain kvs where
    "tv_create_task strict_api example_stringify ?args JUndef =
       (\<lparr>call_path = ''/tasks'', call_method = ''POST'', call_body = JObj kvs,
         call_session = createSession JUndef\<rparr>,
        case strict_api \<lparr>call_path = ''/tasks'', call_method = ''POST'', call_body = JObj kvs,
                          call_session = createSession JUndef\<rparr> of
          Inl err \<Rightarrow> Inl err
        | Inr result \<Rightarrow> Inr (formatResult example_stringify result))"
    by blast
  then show ?thesis
    by (simp add: tv_create_task_def Let_def taskData_def createSession_def obj_set_def
          obj_delete_def js_or_def strict_api_def)
qed

lemma null_session_no_sub:
  "\<not> truthy (opt_get extra ''authInfo'')
     \<Longrightarrow> createSession extra = JNull
         \<and> opt_get (opt_get (createSession extra) ''extra'') ''sub'' = JUndef"
  by (simp add: createSession_def)

text \<open>
  Claim C10.  When the arguments of \<open>tv_create_task\<close> have no \<open>ownerId\<close> and the
  session has no subject claim (\<open>session?.extra?.sub\<close> is undefined, as it is for the null
  session, or otherwise falsy), the body forwarded to the resource API has \<open>ownerId\<close>
  equal to \<open>default-user\<close>, while the principal that the other handlers derive from the
  same session is \<open>anonymous\<close>, a different value.
\<close>

theorem tv_create_task_default_owner:
  assumes "''ownerId'' \<notin> set (obj_keys args)"
    and "\<not> truthy (opt_get (opt_get (createSession extra) ''extra'') ''sub'')"
  shows "\<exists>kvs. tv_create_task callApi stringify args extra =
           (\<lparr>call_path = ''/tasks'', call_method = ''POST'', call_body = JObj kvs,
             call_session = createSession extra\<rparr>,
            case callApi \<lparr>call_path = ''/tasks'', call_method = ''POST'', call_body = JObj kvs,
                           call_session = createSession extra\<rparr> of
              Inl err \<Rightarrow> Inl err
            | Inr result \<Rightarrow> Inr (formatResult stringify result))
           \<and> map_of kvs ''ownerId'' = Some (JStr ''default-user'')
           \<and> tool_principal (createSession extra) = JStr ''anonymous''
           \<and> JStr ''default-user'' \<noteq> tool_principal (createSession extra)"
proof -
  have none: "map_of args ''ownerId'' = None"
    using assms(1) by (simp add: map_of_eq_None_iff obj_keys_def)
  have "js_or (js_or (js_get (JObj args) ''ownerId'')
                     (opt_get (opt_get (createSession extra) ''extra'') ''sub''))
               (JStr ''default-user'') = JStr ''default-user''"
    by (simp add: js_or_def none assms(2))
  then have "map_of (taskData args (createSession extra)) ''ownerId'' = Some (JStr ''default-user'')"
    by (simp add: taskData_def Let_def map_of_obj_delete map_of_obj_set)
  moreover have "tool_principal (createSession extra) = JStr ''anonymous''"
    using assms(2) by (simp add: tool_principal_def js_or_def)
  ultimately show ?thesis
    using tv_create_task_forwards[of callApi stringify args extra] by auto
qed

theorem tv_create_task_default_owner_witness:
  "tv_create_task strict_api example_stringify
       [(''projectId'', JStr ''p1''), (''title'', JStr ''T''), (''tags'', JArr [])] JUndef
     = (\<lparr>call_path = ''/tasks'', call_method = ''POST'',
         call_body = JObj [(''projectId'', JStr ''p1''), (''title'', JStr ''T''),
                           (''tags'', JArr []), (''ownerId'', JStr ''default-user'')],
         call_session = JNull\<rparr>,
        Inr (formatResult example_stringify (JStr ''created T for default-user'')))
   \<and> (\<exists>kvs. tv_create_task strict_api example_stringify
       [(''projectId'', JStr ''p1''), (''title'', JStr ''T''), (''tags'', JArr [])]
       (JObj [(''authInfo'', JObj [(''token'', JStr ''tok''), (''clientId'', JStr ''c1'')])])
        = (\<lparr>call_path = ''/tasks'', call_method = ''POST'', call_body = JObj kvs,
            call_session = JObj [(''token'', JStr ''tok''), (''extra'', JObj []),
                                 (''scopes'', JArr []), (''clientId'', JStr ''c1'')]\<rparr>,
           Inr (formatResult example_stringify (JStr ''created T for default-user'')))
         \<and> map_of kvs ''ownerId'' = Some (JStr ''default-user''))"
proof -
  let ?args = "[(''projectId'', JStr ''p1''), (''title'', JStr ''T''), (''tags'', JArr [])]"
  let ?extra = "JObj [(''authInfo'', JObj [(''token'', JStr ''tok''), (''clientId'', JStr ''c1'')])]"
  have a: "''ownerId'' \<notin> set (obj_keys ?args)" by (simp add: obj_keys_def)
  have n: "\<not> truthy (opt_get (opt_get (createSession JUndef) ''extra'') ''sub'')"
    by (simp add: createSession_def)
  have s: "\<not> truthy (opt_get (opt_get (createSession ?extra) ''extra'') ''sub'')"
    by (simp add: createSession_def js_or_def)
  from tv_create_task_default_owner[OF a n, of strict_api example_stringify]
  obtain kvs where "tv_create_task strict_api example_stringify ?args JUndef =
           (\<lparr>call_path = ''/tasks'', call_method = ''POST'', call_body = JObj kvs,
             call_session = createSession JUndef\<rparr>,
            case strict_api \<lparr>call_path = ''/tasks'', call_method = ''POST'', call_body = JObj kvs,
                           call_session = createSession JUndef\<rparr> of
              Inl err \<Rightarrow> Inl err
            | Inr result \<Rightarrow> Inr (formatResult example_stringify result))"
    by blast
  then have 1: "tv_create_task strict_api example_stringify ?args JUndef
     = (\<lparr>call_path = ''/tasks'', call_method = ''POST'',
         call_body = JObj [(''projectId'', JStr ''p1''), (''title'', JStr ''T''),
                           (''tags'', JArr []), (''ownerId'', JStr ''default-user'')],
         call_session = JNull\<rparr>,
        Inr (formatResult example_stringify (JStr ''created T for default-user'')))"
    by (simp add: tv_create_task_def Let_def taskData_def createSession_def obj_set_def
          obj_delete_def js_or_def strict_api_def)
  from tv_create_task_default_owner[OF a s, of strict_api example_stringify]
  obtain kvs where k: "tv_create_task strict_api example_stringify ?args ?extra =
           (\<lparr>call_path = ''/tasks'', call_method = ''POST'', call_body = JObj kvs,
             call_session = createSession ?extra\<rparr>,
            case strict_api \<lparr>call_path = ''/tasks'', call_method = ''POST'', call_body = JObj kvs,
                           call_session = createSession ?extra\<rparr> of
              Inl err \<Rightarrow> Inl err
            | Inr result \<Rightarrow> Inr (formatResult example_stringify result))"
     and o: "map_of kvs ''ownerId'' = Some (JStr ''default-user'')"
    by blast
  have kv: "kvs = [(''projectId'', JStr ''p1''), (''title'', JStr ''T''),
                   (''tags'', JArr []), (''ownerId'', JStr ''default-user'')]"
    using k by (simp add: tv_create_task_def Let_def taskData_def createSession_def obj_set_def
          obj_delete_def js_or_def)
  have 2: "\<exists>kvs. tv_create_task strict_api example_stringify ?args ?extra
        = (\<lparr>call_path = ''/tasks'', call_method = ''POST'', call_body = JObj kvs,
            call_session = JObj [(''token'', JStr ''tok''), (''extra'', JObj []),
                                 (''scopes'', JArr []), (''clientId'', JStr ''c1'')]\<rparr>,
           Inr (formatResult example_stringify (JStr ''created T for default-user'')))
         \<and> map_of kvs ''ownerId'' = Some (JStr ''default-user'')"
    using k o unfolding kv
    by (intro exI[of _ "[(''projectId'', JStr ''p1''), (''title'', JStr ''T''),
                   (''tags'', JArr []), (''ownerId'', JStr ''default-user'')]"])
       (simp add: createSession_def js_or_def strict_api_def)
  show ?thesis using 1 2 by blast
qed


section \<open>Properties of the downstream bridge\<close>

lemma extract_scopes_disclosed:
  "extract_scopes P cur result =
     (if \<not> truthy cur \<and> truthy (disclosed_scopes P result)
      then disclosed_scopes P result else cur)"
  by (simp add: extract_scopes_def disclosed_scopes_def Let_def split: option.splits)

lemma callTool_result: "fst (callTool P br name args io) = call_result io"
  by (simp add: callTool_def callTool_begin_def callTool_resume_def Let_def split: sum.splits)

lemma after_call_scopes:
  "exchangedScopes (after_call P br name args io) =
     (case call_result io of
        Inl err \<Rightarrow> exchangedScopes br
      | Inr result \<Rightarrow> extract_scopes P (exchangedScopes br) result)"
  by (simp add: after_call_def callTool_def callTool_begin_def callTool_resume_def Let_def
        split: sum.splits)

lemma run_calls_step:
  "run_calls P br (x # rest) = run_calls P (after_call P br (fst x) (fst (snd x)) (snd (snd x))) rest"
  by (cases x) (simp add: after_call_def)

lemma scopes_null_or_truthy_step:
  "exchangedScopes br = JNull \<or> truthy (exchangedScopes br)
     \<Longrightarrow> exchangedScopes (after_call P br name args io) = JNull
         \<or> truthy (exchangedScopes (after_call P br name args io))"
  by (auto simp: after_call_scopes extract_scopes_disclosed split: sum.splits)

lemma scopes_null_or_truthy_run:
  "exchangedScopes br = JNull \<or> truthy (exchangedScopes br)
     \<Longrightarrow> exchangedScopes (run_calls P br calls) = JNull
         \<or> truthy (exchangedScopes (run_calls P br calls))"
proof (induction calls arbitrary: br)
  case Nil then show ?case by simp
next
  case (Cons x calls)
  show ?case unfolding run_calls_step
    by (rule Cons.IH) (rule scopes_null_or_truthy_step[OF Cons.prems])
qed

lemma scopes_kept_step:
  "truthy (exchangedScopes br)
     \<Longrightarrow> exchangedScopes (after_call P br name args io) = exchangedScopes br"
  by (simp add: after_call_scopes extract_scopes_disclosed split: sum.splits)

lemma scopes_kept_run:
  "truthy (exchangedScopes br) \<Longrightarrow> exchangedScopes (run_calls P br calls) = exchangedScopes br"
proof (induction calls arbitrary: br)
  case Nil then show ?case by simp
next
  case (Cons x calls)
  have k: "exchangedScopes (after_call P br (fst x) (fst (snd x)) (snd (snd x))) = exchangedScopes br"
    using Cons.prems by (rule scopes_kept_step)
  then have "truthy (exchangedScopes (after_call P br (fst x) (fst (snd x)) (snd (snd x))))"
    using Cons.prems by simp
  from Cons.IH[OF this] k show ?case unfolding run_calls_step by simp
qed


lemma createMCPClient_fresh:
  assumes "createMCPClient token cio = (Inr (tools, br), evs)"
  shows "exchangedScopes br = JNull" and "tokenExchangeTime br = None"
    and "truthy (accessToken br) = truthy token" and "client br" and "transport br"
  using assms by (auto simp: createMCPClient_def Let_def split: option.splits sum.splits if_splits)

lemma example_bridge:
  "createMCPClient (JStr ''tok'') example_connect =
     (Inr (JArr [], \<lparr>accessToken = JStr ''tok'', client = True, transport = True,
                     exchangedScopes = JNull, tokenExchangeTime = None\<rparr>), [])"
  by (simp add: createMCPClient_def example_connect_def js_or_def)

lemma disclosed_read: "disclosed_scopes example_parse (text_result (scopes_json ''tasks:read'')) = JStr ''tasks:read''"
  by (simp add: disclosed_scopes_def text_result_def example_parse_def scopes_json_def quoted_def)

lemma disclosed_write: "disclosed_scopes example_parse (text_result (scopes_json ''tasks:write'')) = JStr ''tasks:write''"
  by (simp add: disclosed_scopes_def text_result_def example_parse_def scopes_json_def quoted_def)

lemma disclosed_plain: "disclosed_scopes example_parse (text_result ''not json'') = JUndef"
  by (simp add: disclosed_scopes_def text_result_def example_parse_def scopes_json_def quoted_def)

lemma disclosed_empty: "disclosed_scopes example_parse (text_result ''{}'') = JUndef"
  by (simp add: disclosed_scopes_def text_result_def example_parse_def scopes_json_def quoted_def)

lemma cleanup_never_raises: "fst (cleanup br cc tc) = None"
  by (simp add: cleanup_def split: prod.splits option.splits)


text \<open>
  Claim C5 does not hold of \<open>cleanup\<close>.  On a connected bridge whose
  \<open>client.close()\<close> throws, \<open>cleanup\<close> logs the error and returns without attempting
  \<open>transport.close()\<close>: both closes sit in one \<open>try\<close> block.  The \<open>catch\<close> block of
  \<open>createMCPClient\<close> itself closes the two independently.
\<close>

theorem cleanup_client_failure_skips_transport:
  "cleanup (br\<lparr>client := True, transport := True\<rparr>) (Some err) transport_close
     = (None, [ClientClose, LogError ''Cleanup error:'' err])
   \<and> TransportClose \<notin> set (snd (cleanup (br\<lparr>client := True, transport := True\<rparr>) (Some err) transport_close))
   \<and> connection_failed True True err
     = [LogError ''MCP connection failed:'' err, ClientClose, TransportClose]"
  by (simp add: cleanup_def connection_failed_def)

text \<open>
  Claim C6.  On a bridge that \<open>createMCPClient\<close> returned, after any calls:
  \<open>callTool\<close> returns or throws exactly what \<open>client.callTool\<close> did, so inspecting the
  result adds no failure; once \<open>exchangedScopes\<close> is not null, no later sequence of calls
  changes it; a successful call whose result has no text, whose text does not parse or
  whose JSON lacks a (truthy) \<open>_metadata.exchangedScopes\<close> leaves \<open>exchangedScopes\<close> as
  it was; and a successful call that discloses scopes while \<open>exchangedScopes\<close> is still
  null records them.
\<close>

theorem callTool_scopes_first_wins:
  assumes "createMCPClient token cio = (Inr (tools, br0), evs)"
  shows "fst (callTool JSON_parse (run_calls JSON_parse br0 before) name args io) = call_result io
    \<and> (if exchangedScopes (run_calls JSON_parse br0 before) \<noteq> JNull
        then exchangedScopes (run_calls JSON_parse (run_calls JSON_parse br0 before) later)
               = exchangedScopes (run_calls JSON_parse br0 before)
        else True)
    \<and> (if call_result io = Inr result \<and> \<not> truthy (disclosed_scopes JSON_parse result)
        then exchangedScopes (after_call JSON_parse (run_calls JSON_parse br0 before) name args io)
               = exchangedScopes (run_calls JSON_parse br0 before)
        else True)
    \<and> (if call_result io = Inr result \<and> truthy (disclosed_scopes JSON_parse result)
           \<and> exchangedScopes (run_calls JSON_parse br0 before) = JNull
        then exchangedScopes (after_call JSON_parse (run_calls JSON_parse br0 before) name args io)
               = disclosed_scopes JSON_parse result
        else True)"
proof -
  let ?br = "run_calls JSON_parse br0 before"
  have inv: "exchangedScopes ?br = JNull \<or> truthy (exchangedScopes ?br)"
    by (rule scopes_null_or_truthy_run) (simp add: createMCPClient_fresh(1)[OF assms])
  have 1: "fst (callTool JSON_parse ?br name args io) = call_result io"
    by (rule callTool_result)
  have 2: "exchangedScopes ?br \<noteq> JNull \<Longrightarrow>
      exchangedScopes (run_calls JSON_parse ?br later) = exchangedScopes ?br"
    using inv by (auto intro: scopes_kept_run)
  have 3: "call_result io = Inr result \<Longrightarrow> \<not> truthy (disclosed_scopes JSON_parse result) \<Longrightarrow>
      exchangedScopes (after_call JSON_parse ?br name args io) = exchangedScopes ?br"
    by (simp add: after_call_scopes extract_scopes_disclosed)
  have 4: "call_result io = Inr result \<Longrightarrow> truthy (disclosed_scopes JSON_parse result) \<Longrightarrow>
      exchangedScopes ?br = JNull \<Longrightarrow>
      exchangedScopes (after_call JSON_parse ?br name args io) = disclosed_scopes JSON_parse result"
    by (simp add: after_call_scopes extract_scopes_disclosed)
  show ?thesis using 1 2 3 4 by simp
qed

theorem callTool_scopes_first_wins_witness:
  "exchangedScopes (run_calls example_parse
       \<lparr>accessToken = JStr ''tok'', client = True, transport = True,
        exchangedScopes = JNull, tokenExchangeTime = None\<rparr>
       [(''tv_list_tasks'', JObj [], call_ok (scopes_json ''tasks:read'')),
        (''tv_list_tasks'', JObj [], call_ok (scopes_json ''tasks:write''))]) = JStr ''tasks:read''
   \<and> exchangedScopes (after_call example_parse
       \<lparr>accessToken = JStr ''tok'', client = True, transport = True,
        exchangedScopes = JNull, tokenExchangeTime = None\<rparr>
       ''tv_list_tasks'' (JObj []) (call_ok ''not json'')) = JNull
   \<and> exchangedScopes (after_call example_parse
       \<lparr>accessToken = JStr ''tok'', client = True, transport = True,
        exchangedScopes = JNull, tokenExchangeTime = None\<rparr>
       ''tv_list_tasks'' (JObj []) (call_ok ''{}'')) = JNull
   \<and> fst (callTool example_parse
       \<lparr>accessToken = JStr ''tok'', client = True, transport = True,
        exchangedScopes = JNull, tokenExchangeTime = None\<rparr>
       ''tv_list_tasks'' (JObj []) (call_ok ''not json'')) = Inr (text_result ''not json'')"
proof -
  let ?br0 = "\<lparr>accessToken = JStr ''tok'', client = True, transport = True,
        exchangedScopes = JNull, tokenExchangeTime = None\<rparr>"
  let ?c1 = "(''tv_list_tasks'', JObj [], call_ok (scopes_json ''tasks:read''))"
  let ?c2 = "(''tv_list_tasks'', JObj [], call_ok (scopes_json ''tasks:write''))"
  note th = callTool_scopes_first_wins[OF example_bridge, where JSON_parse = example_parse]
  have r1: "exchangedScopes (run_calls example_parse ?br0 [?c1]) = JStr ''tasks:read''"
    using th[where before = "[]" and io = "call_ok (scopes_json ''tasks:read'')"
              and result = "text_result (scopes_json ''tasks:read'')"
              and name = "''tv_list_tasks''" and args = "JObj []"]
    by (simp add: disclosed_read call_ok_def after_call_def)
  have r2: "exchangedScopes (run_calls example_parse ?br0 [?c1, ?c2]) = JStr ''tasks:read''"
    using th[where before = "[?c1]" and later = "[?c2]"] r1 by simp
  have r3: "exchangedScopes (after_call example_parse ?br0 ''tv_list_tasks'' (JObj []) (call_ok ''not json'')) = JNull"
    using th[where before = "[]" and io = "call_ok ''not json''"
              and result = "text_result ''not json''"
              and name = "''tv_list_tasks''" and args = "JObj []"]
    by (simp add: disclosed_plain call_ok_def)
  have r4: "exchangedScopes (after_call example_parse ?br0 ''tv_list_tasks'' (JObj []) (call_ok ''{}'')) = JNull"
    using th[where before = "[]" and io = "call_ok ''{}''"
              and result = "text_result ''{}''"
              and name = "''tv_list_tasks''" and args = "JObj []"]
    by (simp add: disclosed_empty call_ok_def)
  have r5: "fst (callTool example_parse ?br0 ''tv_list_tasks'' (JObj []) (call_ok ''not json'')) = Inr (text_result ''not json'')"
    using th[where before = "[]" and io = "call_ok ''not json''"
              and name = "''tv_list_tasks''" and args = "JObj []"]
    by (simp add: call_ok_def)
  show ?thesis using r2 r3 r4 r5 by simp
qed


text \<open>
  Claim C7 does not hold of \<open>callTool\<close>, whose own comments (lines 71 and 78) speak of
  the first call.  On a bridge built with the credential \<open>tok\<close>: a first call that
  throws records nothing and the second call records the latency; and when a second
  call starts while the first is still suspended, both have seen the latency unset, the
  first records 7 ms and the second then overwrites it with 12 ms.
\<close>

theorem callTool_exchange_time_not_once:
  "createMCPClient (JStr ''tok'') example_connect =
       (Inr (JArr [], \<lparr>accessToken = JStr ''tok'', client = True, transport = True,
                       exchangedScopes = JNull, tokenExchangeTime = None\<rparr>), [])
   \<and> tokenExchangeTime (run_calls example_parse
       \<lparr>accessToken = JStr ''tok'', client = True, transport = True,
        exchangedScopes = JNull, tokenExchangeTime = None\<rparr>
       [(''tv_list_tasks'', JObj [], call_failing)]) = None
   \<and> tokenExchangeTime (run_calls example_parse
       \<lparr>accessToken = JStr ''tok'', client = True, transport = True,
        exchangedScopes = JNull, tokenExchangeTime = None\<rparr>
       [(''tv_list_tasks'', JObj [], call_failing),
        (''tv_list_tasks'', JObj [], call_ok ''{}'')]) = Some 7
   \<and> tokenExchangeTime (fst (overlapping_calls example_parse
       \<lparr>accessToken = JStr ''tok'', client = True, transport = True,
        exchangedScopes = JNull, tokenExchangeTime = None\<rparr>
       (''tv_list_tasks'', JObj [], call_ok ''{}'')
       (''tv_get_task'', JObj [], call_slow ''{}''))) = Some 7
   \<and> tokenExchangeTime (snd (overlapping_calls example_parse
       \<lparr>accessToken = JStr ''tok'', client = True, transport = True,
        exchangedScopes = JNull, tokenExchangeTime = None\<rparr>
       (''tv_list_tasks'', JObj [], call_ok ''{}'')
       (''tv_get_task'', JObj [], call_slow ''{}''))) = Some 12"
  by (simp add: callTool_def callTool_begin_def callTool_resume_def call_failing_def call_ok_def
        call_slow_def Let_def example_bridge overlapping_calls_def)

end
